theory Spec2Isabelle
  imports Complex_Main "HOL-Library.Log_Nat"
begin

section \<open>Data model of \<^verbatim>\<open>main.go\<close>\<close>

text \<open>
  The load generator keeps its whole program in \<^verbatim>\<open>main.go\<close>. A Go \<^verbatim>\<open>*int\<close> field is an
  \<open>int option\<close> (\<open>None\<close> is the nil pointer), Go's \<^verbatim>\<open>int\<close> is taken at 64 bits. The integer
  fields hold values between \<open>- 2 ^ 63\<close> and \<open>2 ^ 63 - 1\<close>; loop counters are modelled without
  wrap-around, since a counter of \<^verbatim>\<open>ScenarioRun\<close> wraps only after \<open>2 ^ 63 - 1\<close> dispatches.
\<close>

subsection \<open>float64\<close>

text \<open>
  \<^verbatim>\<open>Throughput\<close> is a \<^verbatim>\<open>float64\<close>. A finite float64 is the rational number it denotes (the
  two zeros are identified: the sign of zero has no effect on the conversions used here).
  \<open>round53\<close> is IEEE-754 rounding to nearest, ties to even, at 53 bits of precision with the
  smallest exponent of binary64; \<open>f64_round\<close> adds the overflow to infinity.
\<close>

datatype float64 = Finite rat | PosInf | NegInf | NaN

definition pow2 :: "int \<Rightarrow> rat" where
  "pow2 e = (if 0 \<le> e then 2 ^ nat e else 1 / 2 ^ nat (- e))"

definition ilog2 :: "rat \<Rightarrow> int" where
  \<comment> \<open>\<open>\<lfloor>log\<^sub>2 \<bar>x\<bar>\<rfloor>\<close> for \<open>x \<noteq> 0\<close>\<close>
  "ilog2 x = (if 1 \<le> \<bar>x\<bar> then bitlen \<lfloor>\<bar>x\<bar>\<rfloor> - 1 else - bitlen (\<lceil>1 / \<bar>x\<bar>\<rceil> - 1))"

definition round_half_even :: "rat \<Rightarrow> int" where
  "round_half_even y =
     (let n = \<lfloor>y\<rfloor>; d = y - of_int n
      in if d < 1 / 2 then n else if 1 / 2 < d then n + 1 else if even n then n else n + 1)"

definition round53 :: "rat \<Rightarrow> rat" where
  "round53 x =
     (if x = 0 then 0
      else let q = pow2 (max (ilog2 x) (- 1022) - 52) in of_int (round_half_even (x / q)) * q)"

definition f64_round :: "rat \<Rightarrow> float64" where
  "f64_round x =
     (let y = round53 x
      in if 2 ^ 1024 \<le> y then PosInf else if y \<le> - (2 ^ 1024) then NegInf else Finite y)"

definition is_float64 :: "rat \<Rightarrow> bool" where
  "is_float64 x = (f64_round x = Finite x)"

definition f64_of_int :: "int \<Rightarrow> float64" where
  \<comment> \<open>\<^verbatim>\<open>float64(n)\<close> for a 64-bit \<^verbatim>\<open>n\<close>: rounded, never infinite\<close>
  "f64_of_int n = Finite (round53 (of_int n))"

fun f64_mul :: "float64 \<Rightarrow> float64 \<Rightarrow> float64" where
  "f64_mul NaN _ = NaN"
| "f64_mul _ NaN = NaN"
| "f64_mul (Finite a) (Finite b) = f64_round (a * b)"
| "f64_mul (Finite a) PosInf = (if a = 0 then NaN else if 0 < a then PosInf else NegInf)"
| "f64_mul (Finite a) NegInf = (if a = 0 then NaN else if 0 < a then NegInf else PosInf)"
| "f64_mul PosInf (Finite b) = (if b = 0 then NaN else if 0 < b then PosInf else NegInf)"
| "f64_mul NegInf (Finite b) = (if b = 0 then NaN else if 0 < b then NegInf else PosInf)"
| "f64_mul PosInf PosInf = PosInf"
| "f64_mul PosInf NegInf = NegInf"
| "f64_mul NegInf PosInf = NegInf"
| "f64_mul NegInf NegInf = PosInf"

fun f64_ceil :: "float64 \<Rightarrow> float64" where
  \<comment> \<open>\<^verbatim>\<open>math.Ceil\<close>\<close>
  "f64_ceil (Finite x) = Finite (of_int \<lceil>x\<rceil>)"
| "f64_ceil v = v"

text \<open>
  \<^verbatim>\<open>int(f)\<close> truncates towards zero. Where the value does not fit (also for NaN and the
  infinities) Go leaves the result to the implementation: \<open>impl\<close> is that choice.
\<close>

fun go_int :: "(float64 \<Rightarrow> int) \<Rightarrow> float64 \<Rightarrow> int" where
  "go_int impl (Finite x) =
     (let n = (if 0 \<le> x then \<lfloor>x\<rfloor> else \<lceil>x\<rceil>)
      in if - (2 ^ 63) \<le> n \<and> n < 2 ^ 63 then n else impl (Finite x))"
| "go_int impl v = impl v"

subsection \<open>Scenario, Validate, ResultState, ScenarioReport\<close>

record Validate =
  ValidateName :: string
  StatusCode :: "int option"

record Scenario =
  Name :: string
  URL :: string
  Period :: "int option"
  Count :: "int option"
  Throughput :: float64
  Validates :: "Validate list"

record ScenarioData =
  Scenarios :: "Scenario list"

datatype ResultState = ResultOK | ResultValidationFail | ResultRequestFail

record ScenarioReport =
  SuccessCount :: nat
  ValidationFailCount :: nat
  RequestFailCount :: nat

datatype error =
    NilPointerDereference
  | MakeChanSizeOutOfRange
  | OpenError
  | LoadError

section \<open>The target count of \<^verbatim>\<open>ScenarioRun\<close>\<close>

text \<open>
  Lines 165 to 170: \<^verbatim>\<open>count = int(math.Ceil(float64(*s.Period) * s.Throughput))\<close> when
  \<^verbatim>\<open>s.Period\<close> is not nil, otherwise \<^verbatim>\<open>count = *s.Count\<close>, which panics on a nil
  \<^verbatim>\<open>s.Count\<close>.
\<close>

definition target_count :: "(float64 \<Rightarrow> int) \<Rightarrow> Scenario \<Rightarrow> error + int" where
  "target_count impl s =
     (case Period s of
        Some p \<Rightarrow> Inr (go_int impl (f64_ceil (f64_mul (f64_of_int p) (Throughput s))))
      | None \<Rightarrow> (case Count s of Some c \<Rightarrow> Inr c | None \<Rightarrow> Inl NilPointerDereference))"

section \<open>One iteration of \<^verbatim>\<open>scenarioWorker\<close>\<close>

text \<open>
  What the HTTP client gives for one work unit: \<^verbatim>\<open>http.NewRequest\<close> fails, or
  \<^verbatim>\<open>http.DefaultClient.Do\<close> fails, or a response with a status code arrives.
\<close>

datatype http_result = NewRequestError | DoError | Response int

text \<open>
  The channel operations of the loop body and the control transfer that ends it:
  \<open>Loop\<close> is \<^verbatim>\<open>continue L\<close> or the end of the body, \<open>Return\<close> is \<^verbatim>\<open>return\<close>. Logging and the
  \<^verbatim>\<open>cancel()\<close> of the request's own timeout context touch nothing shared and are left out.
\<close>

datatype action = SendReport ResultState | SendDone | Loop | Return

definition rule_fails :: "int \<Rightarrow> Validate \<Rightarrow> bool" where
  \<comment> \<open>\<^verbatim>\<open>v.StatusCode != nil && resp.StatusCode != *v.StatusCode\<close>\<close>
  "rule_fails code v = (case StatusCode v of None \<Rightarrow> False | Some c \<Rightarrow> code \<noteq> c)"

text \<open>
  The \<^verbatim>\<open>range s.Validates\<close> loop, returning the rules whose condition was evaluated and
  the rule that failed, if one did.
\<close>

fun validate_loop :: "int \<Rightarrow> Validate list \<Rightarrow> Validate list \<times> Validate option" where
  "validate_loop code [] = ([], None)"
| "validate_loop code (v # vs) =
     (if rule_fails code v then ([v], Some v)
      else (case validate_loop code vs of (evaluated, failed) \<Rightarrow> (v # evaluated, failed)))"

definition worker_unit :: "Scenario \<Rightarrow> http_result \<Rightarrow> Validate list \<times> action list" where
  "worker_unit s res =
     (case res of
        NewRequestError \<Rightarrow> ([], [SendReport ResultRequestFail, SendDone, Return])
      | DoError \<Rightarrow> ([], [SendReport ResultRequestFail, SendDone, Return])
      | Response code \<Rightarrow>
          (case validate_loop code (Validates s) of
             (evaluated, Some v) \<Rightarrow> (evaluated, [SendReport ResultValidationFail, Loop])
           | (evaluated, None) \<Rightarrow> (evaluated, [SendReport ResultOK, SendDone, Loop])))"

definition evaluated_rules :: "Scenario \<Rightarrow> http_result \<Rightarrow> Validate list" where
  "evaluated_rules s res = fst (worker_unit s res)"

definition unit_actions :: "Scenario \<Rightarrow> http_result \<Rightarrow> action list" where
  "unit_actions s res = snd (worker_unit s res)"

fun reports :: "action list \<Rightarrow> ResultState list" where
  "reports [] = []"
| "reports (SendReport r # as) = r # reports as"
| "reports (_ # as) = reports as"

fun completions :: "action list \<Rightarrow> nat" where
  "completions [] = 0"
| "completions (SendDone # as) = Suc (completions as)"
| "completions (_ # as) = completions as"


section \<open>\<^verbatim>\<open>ScenarioRun\<close> as a transition system\<close>

text \<open>
  \<^verbatim>\<open>ScenarioRun\<close> starts the permit goroutine, computes \<^verbatim>\<open>count\<close>, makes the channels,
  starts \<^verbatim>\<open>httpWorkerNum\<close> workers and the dispatcher goroutine, and then collects the
  reports itself. A \<open>run\<close> holds what stays fixed once the goroutines exist.
\<close>

record run =
  scenario :: Scenario
  count :: int
  worker_num :: nat

definition ScenarioRun_start :: "(float64 \<Rightarrow> int) \<Rightarrow> int \<Rightarrow> Scenario \<Rightarrow> error + run" where
  \<comment> \<open>\<^verbatim>\<open>make(chan Scenario, httpWorkerNum)\<close> panics on a negative size\<close>
  "ScenarioRun_start impl httpWorkerNum s =
     (case target_count impl s of
        Inl e \<Rightarrow> Inl e
      | Inr n \<Rightarrow>
          if httpWorkerNum < 0 then Inl MakeChanSizeOutOfRange
          else Inr \<lparr>scenario = s, count = n, worker_num = nat httpWorkerNum\<rparr>)"

text \<open>
  Modelled from the spec: the limiter of \<^verbatim>\<open>golang.org/x/time/rate\<close> is not part of the
  repository. By section 4.1 of the specification a rate of 0 never emits a permit, and the
  permit sequence ends once cancellation is raised; at any other rate a permit may come at
  any moment.
\<close>

definition permits :: "Scenario \<Rightarrow> bool" where
  "permits s = (Throughput s \<noteq> Finite 0)"

text \<open>
  The permit goroutine (lines 154 to 163) is inside \<^verbatim>\<open>rl.Wait\<close>, or blocked in
  \<^verbatim>\<open>rlCh <- struct{}{}\<close>, or has returned and closed \<^verbatim>\<open>rlCh\<close>.
\<close>

datatype limiter_pc = RWait | RSend | RClosed

text \<open>
  The dispatcher goroutine (lines 180 to 199). \<open>DSelect i c\<close>: at the head of the first loop
  with loop variable \<open>i\<close> and counter \<open>c\<close>. \<open>DEnqueue i c\<close>: after \<^verbatim>\<open>c++\<close>, in
  \<^verbatim>\<open>scenarioCh <- s\<close>. \<open>DDrain j c\<close>: at the head of the second loop with loop variable \<open>j\<close>.
  \<open>DReturned c\<close>: left by a \<^verbatim>\<open>return\<close> inside the first loop. \<open>DFinished c\<close>: left by the
  end of the function. In the last two the deferred \<^verbatim>\<open>close(reportCh)\<close> has run.
\<close>

datatype dispatcher_pc =
    DSelect int nat
  | DEnqueue int nat
  | DDrain nat nat
  | DReturned nat
  | DFinished nat

text \<open>
  A worker (lines 92 to 140) is in the \<^verbatim>\<open>select\<close>, or holds a unit and performs the request,
  or executes the rest of the loop body, or has returned.
\<close>

datatype worker_pc = WSelect | WRequest | WExec "action list" | WReturned

fun continue_with :: "action list \<Rightarrow> worker_pc" where
  "continue_with [] = WSelect"
| "continue_with (Loop # as) = WSelect"
| "continue_with (Return # as) = WReturned"
| "continue_with as = WExec as"

record state =
  cancelled :: bool
  limiter :: limiter_pc
  dispatcher :: dispatcher_pc
  scenarioCh :: nat
  workers :: "worker_pc list"
  success :: nat
  validationFail :: nat
  requestFail :: nat
  returned :: bool
  panicked :: bool

definition init_state :: "run \<Rightarrow> state" where
  "init_state r =
     \<lparr>cancelled = False, limiter = RWait, dispatcher = DSelect 1 0, scenarioCh = 0,
      workers = replicate (worker_num r) WSelect,
      success = 0, validationFail = 0, requestFail = 0, returned = False, panicked = False\<rparr>"

definition reportCh_closed :: "state \<Rightarrow> bool" where
  "reportCh_closed st =
     (case dispatcher st of DReturned c \<Rightarrow> True | DFinished c \<Rightarrow> True | _ \<Rightarrow> False)"

definition dispatched :: "state \<Rightarrow> nat" where
  \<comment> \<open>the counter \<^verbatim>\<open>c\<close> of the dispatcher\<close>
  "dispatched st =
     (case dispatcher st of
        DSelect i c \<Rightarrow> c | DEnqueue i c \<Rightarrow> c | DDrain j c \<Rightarrow> c | DReturned c \<Rightarrow> c
      | DFinished c \<Rightarrow> c)"

definition tally :: "ResultState \<Rightarrow> state \<Rightarrow> state" where
  \<comment> \<open>the \<^verbatim>\<open>switch state\<close> of lines 203 to 211\<close>
  "tally x st =
     (case x of
        ResultOK \<Rightarrow> st\<lparr>success := Suc (success st)\<rparr>
      | ResultValidationFail \<Rightarrow> st\<lparr>validationFail := Suc (validationFail st)\<rparr>
      | ResultRequestFail \<Rightarrow> st\<lparr>requestFail := Suc (requestFail st)\<rparr>)"

definition report_of :: "state \<Rightarrow> ScenarioReport" where
  "report_of st =
     \<lparr>SuccessCount = success st, ValidationFailCount = validationFail st,
      RequestFailCount = requestFail st\<rparr>"

text \<open>
  One event is one step of one goroutine, or the interrupt. A send on an unbuffered channel and
  the matching receive are one event. \<open>Cancel\<close>: the context is cancelled. \<open>RGrant\<close>:
  \<^verbatim>\<open>rl.Wait\<close> returns nil. \<open>RWaitErr\<close>: \<^verbatim>\<open>rl.Wait\<close> returns an error and the goroutine closes
  \<^verbatim>\<open>rlCh\<close>. \<open>DCancel\<close>, \<open>DRecvPermit\<close>, \<open>DRecvClosed\<close>: the three outcomes of the dispatcher's
  \<^verbatim>\<open>select\<close>. \<open>DSend\<close>: \<^verbatim>\<open>scenarioCh <- s\<close> completes. \<open>DLoopEnd\<close>: \<^verbatim>\<open>i <= count\<close> is false.
  \<open>DRecvDone k\<close>: \<^verbatim>\<open><-done\<close> receives the signal of worker \<open>k\<close>. \<open>DDrainEnd\<close>: \<^verbatim>\<open>i < c\<close> is false.
  \<open>WCancel k\<close>, \<open>WRecvUnit k\<close>: the two outcomes of worker \<open>k\<close>'s \<^verbatim>\<open>select\<close>. \<open>WHttp k res\<close>: its
  request ends with \<open>res\<close>. \<open>WSendReport k\<close>: its send on \<^verbatim>\<open>reportCh\<close> is received by the
  collecting loop, or panics when the channel is closed. \<open>AReturn\<close>: the \<^verbatim>\<open>range reportCh\<close>
  loop ends and \<^verbatim>\<open>ScenarioRun\<close> returns. A panic ends the process.
\<close>

datatype event =
    Cancel
  | RGrant
  | RWaitErr
  | DCancel
  | DRecvPermit
  | DRecvClosed
  | DSend
  | DLoopEnd
  | DRecvDone nat
  | DDrainEnd
  | WCancel nat
  | WRecvUnit nat
  | WHttp nat http_result
  | WSendReport nat
  | AReturn

definition step :: "run \<Rightarrow> event \<Rightarrow> state \<Rightarrow> state option" where
  "step r ev st =
     (if panicked st then None
      else case ev of
        Cancel \<Rightarrow> if cancelled st then None else Some (st\<lparr>cancelled := True\<rparr>)
      | RGrant \<Rightarrow>
          if limiter st = RWait \<and> permits (scenario r) then Some (st\<lparr>limiter := RSend\<rparr>)
          else None
      | RWaitErr \<Rightarrow>
          if limiter st = RWait \<and> cancelled st then Some (st\<lparr>limiter := RClosed\<rparr>) else None
      | DCancel \<Rightarrow>
          (case dispatcher st of
             DSelect i c \<Rightarrow>
               if i \<le> count r \<and> cancelled st then Some (st\<lparr>dispatcher := DReturned c\<rparr>)
               else None
           | _ \<Rightarrow> None)
      | DRecvPermit \<Rightarrow>
          (case dispatcher st of
             DSelect i c \<Rightarrow>
               if i \<le> count r \<and> limiter st = RSend
               then Some (st\<lparr>limiter := RWait, dispatcher := DEnqueue i (Suc c)\<rparr>)
               else None
           | _ \<Rightarrow> None)
      | DRecvClosed \<Rightarrow>
          (case dispatcher st of
             DSelect i c \<Rightarrow>
               if i \<le> count r \<and> limiter st = RClosed
               then Some (st\<lparr>dispatcher := DReturned c\<rparr>)
               else None
           | _ \<Rightarrow> None)
      | DSend \<Rightarrow>
          (case dispatcher st of
             DEnqueue i c \<Rightarrow>
               if scenarioCh st < worker_num r
               then Some (st\<lparr>dispatcher := DSelect (i + 1) c, scenarioCh := Suc (scenarioCh st)\<rparr>)
               else None
           | _ \<Rightarrow> None)
      | DLoopEnd \<Rightarrow>
          (case dispatcher st of
             DSelect i c \<Rightarrow> if i \<le> count r then None else Some (st\<lparr>dispatcher := DDrain 0 c\<rparr>)
           | _ \<Rightarrow> None)
      | DRecvDone k \<Rightarrow>
          (case dispatcher st of
             DDrain j c \<Rightarrow>
               if j < c \<and> k < length (workers st)
               then (case workers st ! k of
                       WExec (SendDone # as) \<Rightarrow>
                         Some (st\<lparr>dispatcher := DDrain (Suc j) c,
                                  workers := (workers st)[k := continue_with as]\<rparr>)
                     | _ \<Rightarrow> None)
               else None
           | _ \<Rightarrow> None)
      | DDrainEnd \<Rightarrow>
          (case dispatcher st of
             DDrain j c \<Rightarrow> if j < c then None else Some (st\<lparr>dispatcher := DFinished c\<rparr>)
           | _ \<Rightarrow> None)
      | WCancel k \<Rightarrow>
          if k < length (workers st) \<and> workers st ! k = WSelect \<and> cancelled st
          then Some (st\<lparr>workers := (workers st)[k := WReturned]\<rparr>)
          else None
      | WRecvUnit k \<Rightarrow>
          if k < length (workers st) \<and> workers st ! k = WSelect \<and> 0 < scenarioCh st
          then Some (st\<lparr>scenarioCh := scenarioCh st - 1,
                        workers := (workers st)[k := WRequest]\<rparr>)
          else None
      | WHttp k res \<Rightarrow>
          if k < length (workers st) \<and> workers st ! k = WRequest
          then Some (st\<lparr>workers := (workers st)[k := WExec (unit_actions (scenario r) res)]\<rparr>)
          else None
      | WSendReport k \<Rightarrow>
          if k < length (workers st)
          then (case workers st ! k of
                  WExec (SendReport x # as) \<Rightarrow>
                    if reportCh_closed st then Some (st\<lparr>panicked := True\<rparr>)
                    else Some (tally x (st\<lparr>workers := (workers st)[k := continue_with as]\<rparr>))
                | _ \<Rightarrow> None)
          else None
      | AReturn \<Rightarrow>
          if reportCh_closed st \<and> \<not> returned st then Some (st\<lparr>returned := True\<rparr>) else None)"

fun exec :: "run \<Rightarrow> event list \<Rightarrow> state \<Rightarrow> state option" where
  "exec r [] st = Some st"
| "exec r (ev # evs) st = (case step r ev st of None \<Rightarrow> None | Some st' \<Rightarrow> exec r evs st')"

inductive reachable :: "run \<Rightarrow> state \<Rightarrow> bool" for r :: run where
  reachable_init: "reachable r (init_state r)"
| reachable_step: "reachable r st \<Longrightarrow> step r ev st = Some st' \<Longrightarrow> reachable r st'"

subsection \<open>\<^verbatim>\<open>LoadScenarioFile\<close> and \<^verbatim>\<open>main\<close>\<close>

text \<open>
  \<^verbatim>\<open>LoadScenarioFile\<close> reads its input and hands the bytes to \<^verbatim>\<open>yaml.Unmarshal\<close>, an external
  decoder taken as the parameter \<open>unmarshal\<close>; it checks nothing itself. \<^verbatim>\<open>main\<close> stops on an
  error of opening or loading and otherwise calls \<^verbatim>\<open>ScenarioRun\<close> on every scenario of the
  file, each in a goroutine of its own.
\<close>

definition LoadScenarioFile ::
  "(string \<Rightarrow> error + ScenarioData) \<Rightarrow> error + string \<Rightarrow> error + ScenarioData" where
  "LoadScenarioFile unmarshal input =
     (case input of
        Inl e \<Rightarrow> Inl e
      | Inr bytes \<Rightarrow> (case unmarshal bytes of Inl e \<Rightarrow> Inl e | Inr d \<Rightarrow> Inr d))"

definition main_runs ::
  "(float64 \<Rightarrow> int) \<Rightarrow> int \<Rightarrow> (string \<Rightarrow> error + ScenarioData) \<Rightarrow> error + string
     \<Rightarrow> error + (error + run) list" where
  "main_runs impl httpWorkerNum unmarshal input =
     (case LoadScenarioFile unmarshal input of
        Inl e \<Rightarrow> Inl e
      | Inr d \<Rightarrow> Inr (map (ScenarioRun_start impl httpWorkerNum) (Scenarios d)))"

section \<open>Counting units and completion signals\<close>

text \<open>
  A worker holds a unit from the receive until its report is sent, and is signalling while
  it is blocked in \<^verbatim>\<open>done <- struct{}{}\<close>.
\<close>

fun holds_unit :: "worker_pc \<Rightarrow> nat" where
  "holds_unit WRequest = 1"
| "holds_unit (WExec (SendReport x # as)) = 1"
| "holds_unit w = 0"

fun signalling :: "worker_pc \<Rightarrow> nat" where
  "signalling (WExec (SendDone # as)) = 1"
| "signalling w = 0"

definition in_flight :: "state \<Rightarrow> nat" where
  "in_flight st = sum_list (map holds_unit (workers st))"

definition pending_done :: "state \<Rightarrow> nat" where
  "pending_done st = sum_list (map signalling (workers st))"

definition enqueued :: "state \<Rightarrow> nat" where
  \<comment> \<open>sends on \<^verbatim>\<open>scenarioCh\<close> that have completed\<close>
  "enqueued st = (case dispatcher st of DEnqueue i c \<Rightarrow> c - 1 | _ \<Rightarrow> dispatched st)"

definition observed :: "state \<Rightarrow> nat" where
  \<comment> \<open>receives from \<^verbatim>\<open>done\<close> that have completed\<close>
  "observed st = (case dispatcher st of DDrain j c \<Rightarrow> j | DFinished c \<Rightarrow> c | _ \<Rightarrow> 0)"

definition well_formed :: "action list \<Rightarrow> bool" where
  "well_formed as =
     (as = [SendReport ResultRequestFail, SendDone, Return] \<or> as = [SendDone, Return] \<or>
      as = [SendReport ResultValidationFail, Loop] \<or>
      as = [SendReport ResultOK, SendDone, Loop] \<or> as = [SendDone, Loop])"

fun worker_ok :: "worker_pc \<Rightarrow> bool" where
  "worker_ok (WExec as) = well_formed as"
| "worker_ok w = True"

definition dispatcher_ok :: "run \<Rightarrow> state \<Rightarrow> bool" where
  "dispatcher_ok r st =
     (case dispatcher st of
        DSelect i c \<Rightarrow> 1 \<le> i \<and> int c = i - 1 \<and> i - 1 \<le> max 0 (count r)
      | DEnqueue i c \<Rightarrow> 1 \<le> i \<and> i \<le> count r \<and> int c = i
      | DDrain j c \<Rightarrow> j \<le> c \<and> int c \<le> max 0 (count r)
      | DReturned c \<Rightarrow> int c \<le> max 0 (count r) \<and> cancelled st
      | DFinished c \<Rightarrow> int c \<le> max 0 (count r))"

definition invariant :: "run \<Rightarrow> state \<Rightarrow> bool" where
  "invariant r st =
     (dispatcher_ok r st \<and>
      (limiter st = RClosed \<longrightarrow> cancelled st) \<and>
      list_all worker_ok (workers st) \<and>
      enqueued st = scenarioCh st + in_flight st + success st + validationFail st + requestFail st \<and>
      success st + requestFail st = observed st + pending_done st \<and>
      (returned st \<longrightarrow> reportCh_closed st) \<and>
      (panicked st \<longrightarrow> reportCh_closed st) \<and>
      length (workers st) = worker_num r \<and>
      scenarioCh st \<le> worker_num r)"

text \<open>What stays true of a run whose limiter never emits a permit.\<close>

fun idle_worker :: "worker_pc \<Rightarrow> bool" where
  "idle_worker WSelect = True"
| "idle_worker WReturned = True"
| "idle_worker w = False"

definition idle_invariant :: "run \<Rightarrow> state \<Rightarrow> bool" where
  "idle_invariant r st =
     (\<not> panicked st \<and> limiter st \<noteq> RSend \<and> scenarioCh st = 0 \<and>
      list_all idle_worker (workers st) \<and>
      success st = 0 \<and> validationFail st = 0 \<and> requestFail st = 0 \<and>
      (dispatcher st = DSelect 1 0 \<and> \<not> returned st \<or>
       dispatcher st = DDrain 0 0 \<and> \<not> returned st \<and> count r < 1 \<or>
       dispatcher st = DFinished 0 \<and> count r < 1 \<or>
       dispatcher st = DReturned 0 \<and> cancelled st \<and> 1 \<le> count r))"

text \<open>
  The steps that are left to the dispatcher and the collecting loop of a run whose first
  loop has nothing to do.
\<close>

definition wind_down :: "state \<Rightarrow> event list" where
  "wind_down st =
     (case dispatcher st of
        DSelect i c \<Rightarrow> [DLoopEnd, DDrainEnd, AReturn]
      | DDrain j c \<Rightarrow> [DDrainEnd, AReturn]
      | _ \<Rightarrow> if returned st then [] else [AReturn])"

section \<open>Concrete scenarios and runs\<close>

definition amd64_int :: "float64 \<Rightarrow> int" where
  \<comment> \<open>what amd64 gives for a value that does not fit\<close>
  "amd64_int v = - (2 ^ 63)"

definition status_200 :: Validate where
  "status_200 = \<lparr>ValidateName = ''status_code=200'', StatusCode = Some 200\<rparr>"

definition status_404 :: Validate where
  "status_404 = \<lparr>ValidateName = ''status_code=404'', StatusCode = Some 404\<rparr>"

definition status_any :: Validate where
  "status_any = \<lparr>ValidateName = ''any'', StatusCode = None\<rparr>"

definition ping :: Scenario where
  "ping =
     \<lparr>Name = ''ping'', URL = ''https://google.com'', Period = None, Count = Some 2,
      Throughput = Finite 1, Validates = [status_200]\<rparr>"

definition ping_run :: run where
  "ping_run = \<lparr>scenario = ping, count = 2, worker_num = 1\<rparr>"

definition ping_once :: Scenario where
  "ping_once = ping\<lparr>Count := Some 1\<rparr>"

definition once_run :: run where
  "once_run = \<lparr>scenario = ping_once, count = 1, worker_num = 1\<rparr>"

definition three_rules :: Scenario where
  "three_rules = ping\<lparr>Validates := [status_any, status_200, status_404]\<rparr>"

definition negative_count :: Scenario where
  "negative_count = ping\<lparr>Count := Some (- 1)\<rparr>"

definition negative_run :: run where
  "negative_run = \<lparr>scenario = negative_count, count = - 1, worker_num = 1\<rparr>"

definition both_set :: Scenario where
  "both_set = ping\<lparr>Period := Some 10, Count := Some 5, Throughput := Finite 2\<rparr>"

definition both_run :: run where
  "both_run = \<lparr>scenario = both_set, count = 20, worker_num = 1\<rparr>"

definition neither_set :: Scenario where
  "neither_set = ping\<lparr>Count := None\<rparr>"

definition decoded_both :: "string \<Rightarrow> error + ScenarioData" where
  \<comment> \<open>a decoder that yields two scenarios: one with both fields set, one with neither\<close>
  "decoded_both bytes = Inr \<lparr>Scenarios = [both_set, neither_set]\<rparr>"

definition idle_period :: Scenario where
  "idle_period = ping\<lparr>Period := Some 10, Count := None, Throughput := Finite 0\<rparr>"

definition idle_period_run :: run where
  "idle_period_run = \<lparr>scenario = idle_period, count = 0, worker_num = 1\<rparr>"

definition idle_count :: Scenario where
  "idle_count = ping\<lparr>Count := Some 5, Throughput := Finite 0\<rparr>"

definition idle_count_run :: run where
  "idle_count_run = \<lparr>scenario = idle_count, count = 5, worker_num = 1\<rparr>"

definition tenth :: rat where
  \<comment> \<open>the float64 nearest to 0.1\<close>
  "tenth = 3602879701896397 / 36028797018963968"

definition seven_hundredths :: rat where
  \<comment> \<open>the float64 nearest to 0.07\<close>
  "seven_hundredths = 1261007895663739 / 18014398509481984"

definition ten_seconds :: Scenario where
  "ten_seconds = ping\<lparr>Period := Some 10, Count := None, Throughput := Finite tenth\<rparr>"

definition hundred_seconds :: Scenario where
  "hundred_seconds =
     ping\<lparr>Period := Some 100, Count := None, Throughput := Finite seven_hundredths\<rparr>"

definition one_dispatched :: state where
  \<comment> \<open>after \<open>[RGrant, DRecvPermit, DSend]\<close>\<close>
  "one_dispatched =
     \<lparr>cancelled = False, limiter = RWait, dispatcher = DSelect 2 1, scenarioCh = 1,
      workers = [WSelect], success = 0, validationFail = 0, requestFail = 0,
      returned = False, panicked = False\<rparr>"

definition interrupted :: state where
  \<comment> \<open>\<open>one_dispatched\<close>, then \<open>[Cancel, DCancel, AReturn]\<close>\<close>
  "interrupted =
     \<lparr>cancelled = True, limiter = RWait, dispatcher = DReturned 1, scenarioCh = 1,
      workers = [WSelect], success = 0, validationFail = 0, requestFail = 0,
      returned = True, panicked = False\<rparr>"

definition closed_early :: state where
  \<comment> \<open>\<open>one_dispatched\<close>, then \<open>[WRecvUnit 0, Cancel, DCancel]\<close>\<close>
  "closed_early =
     \<lparr>cancelled = True, limiter = RWait, dispatcher = DReturned 1, scenarioCh = 0,
      workers = [WRequest], success = 0, validationFail = 0, requestFail = 0,
      returned = False, panicked = False\<rparr>"

definition drained :: state where
  "drained =
     \<lparr>cancelled = False, limiter = RWait, dispatcher = DFinished 1, scenarioCh = 0,
      workers = [WSelect], success = 1, validationFail = 0, requestFail = 0,
      returned = False, panicked = False\<rparr>"

definition completed :: state where
  "completed = drained\<lparr>returned := True\<rparr>"

definition worker_gone :: state where
  "worker_gone =
     \<lparr>cancelled = False, limiter = RWait, dispatcher = DDrain 1 1, scenarioCh = 0,
      workers = [WReturned], success = 0, validationFail = 0, requestFail = 1,
      returned = False, panicked = False\<rparr>"

definition never_signalled :: state where
  "never_signalled =
     \<lparr>cancelled = False, limiter = RWait, dispatcher = DDrain 0 1, scenarioCh = 0,
      workers = [WSelect], success = 0, validationFail = 1, requestFail = 0,
      returned = False, panicked = False\<rparr>"

text \<open>
  Two situations in which the dispatcher waits in its second loop for a completion signal
  that no worker will send.
\<close>

definition waiting_forever :: "state \<Rightarrow> bool" where
  "waiting_forever st =
     (dispatcher st = DDrain 0 1 \<and> scenarioCh st = 0 \<and> list_all idle_worker (workers st) \<and>
      returned st = False)"

definition pool_empty :: state where
  "pool_empty =
     \<lparr>cancelled = False, limiter = RWait, dispatcher = DDrain 1 2, scenarioCh = 1,
      workers = [WReturned], success = 0, validationFail = 0, requestFail = 1,
      returned = False, panicked = False\<rparr>"

definition starved :: "state \<Rightarrow> bool" where
  "starved st = (dispatcher st = DDrain 1 2 \<and> workers st = [WReturned] \<and> returned st = False)"

section \<open>Invariants of a run\<close>

lemma sum_list_map_update:
  "k < length xs \<Longrightarrow> sum_list (map f (xs[k := y])) + f (xs ! k) = sum_list (map f xs) + (f y :: nat)"
proof (induction xs arbitrary: k)
  case Nil
  then show ?case by simp
next
  case (Cons x xs)
  show ?case
  proof (cases k)
    case 0
    then show ?thesis by simp
  next
    case (Suc n)
    with Cons.prems have "n < length xs" by simp
    from Cons.IH [OF this] Suc show ?thesis by simp
  qed
qed

lemma list_all_update:
  "list_all P xs \<Longrightarrow> P y \<Longrightarrow> list_all P (xs[k := y])"
  by (induction xs arbitrary: k) (auto split: nat.splits)

lemma list_all_nth: "list_all P xs \<Longrightarrow> k < length xs \<Longrightarrow> P (xs ! k)"
  by (simp add: list_all_length)

lemma well_formed_unit: "well_formed (unit_actions s res)"
  by (auto simp: unit_actions_def worker_unit_def well_formed_def
      split: http_result.splits prod.splits option.splits)

lemma invariant_init: "invariant r (init_state r)"
  by (simp add: invariant_def init_state_def dispatcher_ok_def enqueued_def dispatched_def
      in_flight_def pending_done_def observed_def reportCh_closed_def list_all_length)

subsection \<open>What each event does\<close>

lemmas inv_defs = invariant_def dispatcher_ok_def enqueued_def dispatched_def
  in_flight_def pending_done_def observed_def reportCh_closed_def

lemma step_Cancel:
  "step r Cancel st = Some st' \<longleftrightarrow> \<not> panicked st \<and> \<not> cancelled st \<and> st' = st\<lparr>cancelled := True\<rparr>"
  by (auto simp: step_def)

lemma step_RGrant:
  "step r RGrant st = Some st' \<longleftrightarrow>
     \<not> panicked st \<and> limiter st = RWait \<and> permits (scenario r) \<and> st' = st\<lparr>limiter := RSend\<rparr>"
  by (auto simp: step_def)

lemma step_RWaitErr:
  "step r RWaitErr st = Some st' \<longleftrightarrow>
     \<not> panicked st \<and> limiter st = RWait \<and> cancelled st \<and> st' = st\<lparr>limiter := RClosed\<rparr>"
  by (auto simp: step_def)

lemma step_DCancel:
  "step r DCancel st = Some st' \<longleftrightarrow>
     \<not> panicked st \<and> cancelled st \<and>
     (\<exists>i c. dispatcher st = DSelect i c \<and> i \<le> count r \<and> st' = st\<lparr>dispatcher := DReturned c\<rparr>)"
  by (cases "dispatcher st") (auto simp: step_def)

lemma step_DRecvPermit:
  "step r DRecvPermit st = Some st' \<longleftrightarrow>
     \<not> panicked st \<and> limiter st = RSend \<and>
     (\<exists>i c. dispatcher st = DSelect i c \<and> i \<le> count r \<and>
        st' = st\<lparr>limiter := RWait, dispatcher := DEnqueue i (Suc c)\<rparr>)"
  by (cases "dispatcher st") (auto simp: step_def)

lemma step_DRecvClosed:
  "step r DRecvClosed st = Some st' \<longleftrightarrow>
     \<not> panicked st \<and> limiter st = RClosed \<and>
     (\<exists>i c. dispatcher st = DSelect i c \<and> i \<le> count r \<and> st' = st\<lparr>dispatcher := DReturned c\<rparr>)"
  by (cases "dispatcher st") (auto simp: step_def)

lemma step_DSend:
  "step r DSend st = Some st' \<longleftrightarrow>
     \<not> panicked st \<and> scenarioCh st < worker_num r \<and>
     (\<exists>i c. dispatcher st = DEnqueue i c \<and>
        st' = st\<lparr>dispatcher := DSelect (i + 1) c, scenarioCh := Suc (scenarioCh st)\<rparr>)"
  by (cases "dispatcher st") (auto simp: step_def)

lemma step_DLoopEnd:
  "step r DLoopEnd st = Some st' \<longleftrightarrow>
     \<not> panicked st \<and>
     (\<exists>i c. dispatcher st = DSelect i c \<and> count r < i \<and> st' = st\<lparr>dispatcher := DDrain 0 c\<rparr>)"
  by (cases "dispatcher st") (auto simp: step_def)

lemma step_DDrainEnd:
  "step r DDrainEnd st = Some st' \<longleftrightarrow>
     \<not> panicked st \<and>
     (\<exists>j c. dispatcher st = DDrain j c \<and> \<not> j < c \<and> st' = st\<lparr>dispatcher := DFinished c\<rparr>)"
  by (cases "dispatcher st") (auto simp: step_def)

lemma step_AReturn:
  "step r AReturn st = Some st' \<longleftrightarrow>
     \<not> panicked st \<and> reportCh_closed st \<and> \<not> returned st \<and> st' = st\<lparr>returned := True\<rparr>"
  by (auto simp: step_def)

lemma step_WCancel:
  "step r (WCancel k) st = Some st' \<longleftrightarrow>
     \<not> panicked st \<and> k < length (workers st) \<and> workers st ! k = WSelect \<and> cancelled st \<and>
     st' = st\<lparr>workers := (workers st)[k := WReturned]\<rparr>"
  by (auto simp: step_def)

lemma step_WRecvUnit:
  "step r (WRecvUnit k) st = Some st' \<longleftrightarrow>
     \<not> panicked st \<and> k < length (workers st) \<and> workers st ! k = WSelect \<and> 0 < scenarioCh st \<and>
     st' = st\<lparr>scenarioCh := scenarioCh st - 1, workers := (workers st)[k := WRequest]\<rparr>"
  by (auto simp: step_def)

lemma step_WHttp:
  "step r (WHttp k res) st = Some st' \<longleftrightarrow>
     \<not> panicked st \<and> k < length (workers st) \<and> workers st ! k = WRequest \<and>
     st' = st\<lparr>workers := (workers st)[k := WExec (unit_actions (scenario r) res)]\<rparr>"
  by (auto simp: step_def)

lemma step_DRecvDone:
  "step r (DRecvDone k) st = Some st' \<longleftrightarrow>
     \<not> panicked st \<and> k < length (workers st) \<and>
     (\<exists>j c as. dispatcher st = DDrain j c \<and> j < c \<and> workers st ! k = WExec (SendDone # as) \<and>
        st' = st\<lparr>dispatcher := DDrain (Suc j) c, workers := (workers st)[k := continue_with as]\<rparr>)"
  by (cases "dispatcher st")
     (auto simp: step_def split: worker_pc.splits list.splits action.splits)

lemma step_WSendReport:
  "step r (WSendReport k) st = Some st' \<longleftrightarrow>
     \<not> panicked st \<and> k < length (workers st) \<and>
     (\<exists>x as. workers st ! k = WExec (SendReport x # as) \<and>
        st' = (if reportCh_closed st then st\<lparr>panicked := True\<rparr>
               else tally x (st\<lparr>workers := (workers st)[k := continue_with as]\<rparr>)))"
  by (auto simp: step_def split: worker_pc.splits list.splits action.splits)

subsection \<open>Every event keeps the invariant\<close>

lemma inv_Cancel: "step r Cancel st = Some st' \<Longrightarrow> invariant r st \<Longrightarrow> invariant r st'"
  by (cases "dispatcher st") (auto simp: step_Cancel inv_defs)

lemma inv_RGrant: "step r RGrant st = Some st' \<Longrightarrow> invariant r st \<Longrightarrow> invariant r st'"
  by (cases "dispatcher st") (auto simp: step_RGrant inv_defs)

lemma inv_RWaitErr: "step r RWaitErr st = Some st' \<Longrightarrow> invariant r st \<Longrightarrow> invariant r st'"
  by (cases "dispatcher st") (auto simp: step_RWaitErr inv_defs)

lemma inv_DCancel: "step r DCancel st = Some st' \<Longrightarrow> invariant r st \<Longrightarrow> invariant r st'"
  by (auto simp: step_DCancel inv_defs)

lemma inv_DRecvPermit: "step r DRecvPermit st = Some st' \<Longrightarrow> invariant r st \<Longrightarrow> invariant r st'"
  by (auto simp: step_DRecvPermit inv_defs)

lemma inv_DRecvClosed: "step r DRecvClosed st = Some st' \<Longrightarrow> invariant r st \<Longrightarrow> invariant r st'"
  by (auto simp: step_DRecvClosed inv_defs)

lemma inv_DSend: "step r DSend st = Some st' \<Longrightarrow> invariant r st \<Longrightarrow> invariant r st'"
  by (auto simp: step_DSend inv_defs)

lemma inv_DLoopEnd: "step r DLoopEnd st = Some st' \<Longrightarrow> invariant r st \<Longrightarrow> invariant r st'"
  by (auto simp: step_DLoopEnd inv_defs)

lemma inv_DDrainEnd: "step r DDrainEnd st = Some st' \<Longrightarrow> invariant r st \<Longrightarrow> invariant r st'"
  by (auto simp: step_DDrainEnd inv_defs)

lemma inv_AReturn: "step r AReturn st = Some st' \<Longrightarrow> invariant r st \<Longrightarrow> invariant r st'"
  by (cases "dispatcher st") (auto simp: step_AReturn inv_defs)

lemma inv_WCancel:
  assumes "step r (WCancel k) st = Some st'" and "invariant r st"
  shows "invariant r st'"
proof -
  from assms(1) have k: "k < length (workers st)" and w: "workers st ! k = WSelect"
    and st': "st' = st\<lparr>workers := (workers st)[k := WReturned]\<rparr>"
    by (simp_all add: step_WCancel)
  from sum_list_map_update [OF k, of holds_unit WReturned] w
  have f: "in_flight st' = in_flight st" by (simp add: st' in_flight_def)
  from sum_list_map_update [OF k, of signalling WReturned] w
  have p: "pending_done st' = pending_done st" by (simp add: st' pending_done_def)
  from assms(2) have "list_all worker_ok (workers st')"
    by (simp add: st' invariant_def list_all_update)
  with assms(2) f p show ?thesis
    by (cases "dispatcher st")
       (auto simp: st' invariant_def dispatcher_ok_def enqueued_def dispatched_def
          observed_def reportCh_closed_def)
qed

lemma inv_WRecvUnit:
  assumes "step r (WRecvUnit k) st = Some st'" and "invariant r st"
  shows "invariant r st'"
proof -
  from assms(1) have k: "k < length (workers st)" and w: "workers st ! k = WSelect"
    and q: "0 < scenarioCh st"
    and st': "st' = st\<lparr>scenarioCh := scenarioCh st - 1, workers := (workers st)[k := WRequest]\<rparr>"
    by (simp_all add: step_WRecvUnit)
  from sum_list_map_update [OF k, of holds_unit WRequest] w
  have f: "in_flight st' = Suc (in_flight st)" by (simp add: st' in_flight_def)
  from sum_list_map_update [OF k, of signalling WRequest] w
  have p: "pending_done st' = pending_done st" by (simp add: st' pending_done_def)
  from assms(2) have "list_all worker_ok (workers st')"
    by (simp add: st' invariant_def list_all_update)
  with assms(2) f p q show ?thesis
    by (cases "dispatcher st")
       (auto simp: st' invariant_def dispatcher_ok_def enqueued_def dispatched_def
          observed_def reportCh_closed_def)
qed

lemma holds_unit_actions: "holds_unit (WExec (unit_actions s res)) = 1"
  by (auto simp: unit_actions_def worker_unit_def split: http_result.splits prod.splits option.splits)

lemma signalling_unit_actions: "signalling (WExec (unit_actions s res)) = 0"
  by (auto simp: unit_actions_def worker_unit_def split: http_result.splits prod.splits option.splits)

lemma inv_WHttp:
  assumes "step r (WHttp k res) st = Some st'" and "invariant r st"
  shows "invariant r st'"
proof -
  let ?w = "WExec (unit_actions (scenario r) res)"
  from assms(1) have k: "k < length (workers st)" and w: "workers st ! k = WRequest"
    and st': "st' = st\<lparr>workers := (workers st)[k := ?w]\<rparr>"
    by (simp_all add: step_WHttp)
  from sum_list_map_update [OF k, of holds_unit ?w] w
  have f: "in_flight st' = in_flight st" by (simp add: st' in_flight_def holds_unit_actions)
  from sum_list_map_update [OF k, of signalling ?w] w
  have p: "pending_done st' = pending_done st"
    by (simp add: st' pending_done_def signalling_unit_actions)
  from assms(2) have "list_all worker_ok (workers st')"
    by (simp add: st' invariant_def list_all_update well_formed_unit)
  with assms(2) f p show ?thesis
    by (cases "dispatcher st")
       (auto simp: st' invariant_def dispatcher_ok_def enqueued_def dispatched_def
          observed_def reportCh_closed_def)
qed

lemma inv_DRecvDone:
  assumes "step r (DRecvDone k) st = Some st'" and "invariant r st"
  shows "invariant r st'"
proof -
  from assms(1) obtain j c as where k: "k < length (workers st)"
    and d: "dispatcher st = DDrain j c" and jc: "j < c"
    and w: "workers st ! k = WExec (SendDone # as)"
    and st': "st' = st\<lparr>dispatcher := DDrain (Suc j) c,
                         workers := (workers st)[k := continue_with as]\<rparr>"
    by (auto simp: step_DRecvDone)
  from assms(2) k have "worker_ok (workers st ! k)"
    by (simp add: invariant_def list_all_nth)
  with w have as: "as = [Return] \<or> as = [Loop]" by (simp add: well_formed_def)
  then have c0: "holds_unit (continue_with as) = 0" "signalling (continue_with as) = 0"
    "worker_ok (continue_with as)" by auto
  from sum_list_map_update [OF k, of holds_unit "continue_with as"] w c0
  have f: "in_flight st' = in_flight st" by (simp add: st' in_flight_def)
  from sum_list_map_update [OF k, of signalling "continue_with as"] w c0
  have p: "Suc (pending_done st') = pending_done st" by (simp add: st' pending_done_def)
  from assms(2) c0 have "list_all worker_ok (workers st')"
    by (simp add: st' invariant_def list_all_update)
  with assms(2) f p d jc show ?thesis
    by (simp add: st' invariant_def dispatcher_ok_def enqueued_def dispatched_def
          observed_def reportCh_closed_def)
qed

lemma inv_WSendReport:
  assumes "step r (WSendReport k) st = Some st'" and "invariant r st"
  shows "invariant r st'"
proof -
  from assms(1) obtain x as where k: "k < length (workers st)"
    and w: "workers st ! k = WExec (SendReport x # as)"
    and st': "st' = (if reportCh_closed st then st\<lparr>panicked := True\<rparr>
               else tally x (st\<lparr>workers := (workers st)[k := continue_with as]\<rparr>))"
    by (auto simp: step_WSendReport)
  show ?thesis
  proof (cases "reportCh_closed st")
    case True
    with st' assms(2) show ?thesis
      by (cases "dispatcher st")
         (auto simp: invariant_def dispatcher_ok_def enqueued_def dispatched_def
            observed_def reportCh_closed_def in_flight_def pending_done_def)
  next
    case False
    from assms(2) k have "worker_ok (workers st ! k)"
      by (simp add: invariant_def list_all_nth)
    with w have shape: "(x = ResultRequestFail \<and> as = [SendDone, Return]) \<or>
        (x = ResultValidationFail \<and> as = [Loop]) \<or> (x = ResultOK \<and> as = [SendDone, Loop])"
      by (auto simp: well_formed_def)
    then have ok: "worker_ok (continue_with as)" and h0: "holds_unit (continue_with as) = 0"
      by (auto simp: well_formed_def)
    let ?ws = "(workers st)[k := continue_with as]"
    from sum_list_map_update [OF k, of holds_unit "continue_with as"] w h0
    have f: "Suc (sum_list (map holds_unit ?ws)) = in_flight st" by (simp add: in_flight_def)
    from sum_list_map_update [OF k, of signalling "continue_with as"] w
    have p: "sum_list (map signalling ?ws) = pending_done st + signalling (continue_with as)"
      by (simp add: pending_done_def)
    from assms(2) ok have wl: "list_all worker_ok ?ws"
      by (simp add: invariant_def list_all_update)
    from shape show ?thesis
    proof (elim disjE conjE)
      assume "x = ResultRequestFail" "as = [SendDone, Return]"
      with False st' assms(2) f p wl show ?thesis
        by (cases "dispatcher st")
           (auto simp: tally_def invariant_def dispatcher_ok_def enqueued_def dispatched_def
              observed_def reportCh_closed_def in_flight_def pending_done_def)
    next
      assume "x = ResultValidationFail" "as = [Loop]"
      with False st' assms(2) f p wl show ?thesis
        by (cases "dispatcher st")
           (auto simp: tally_def invariant_def dispatcher_ok_def enqueued_def dispatched_def
              observed_def reportCh_closed_def in_flight_def pending_done_def)
    next
      assume "x = ResultOK" "as = [SendDone, Loop]"
      with False st' assms(2) f p wl show ?thesis
        by (cases "dispatcher st")
           (auto simp: tally_def invariant_def dispatcher_ok_def enqueued_def dispatched_def
              observed_def reportCh_closed_def in_flight_def pending_done_def)
    qed
  qed
qed

lemma invariant_step:
  assumes "step r ev st = Some st'" and "invariant r st"
  shows "invariant r st'"
  using assms
  by (cases ev)
     (auto intro: inv_Cancel inv_RGrant inv_RWaitErr inv_DCancel inv_DRecvPermit inv_DRecvClosed
        inv_DSend inv_DLoopEnd inv_DRecvDone inv_DDrainEnd inv_WCancel inv_WRecvUnit inv_WHttp
        inv_WSendReport inv_AReturn)

lemma reachable_invariant: "reachable r st \<Longrightarrow> invariant r st"
  by (induction rule: reachable.induct) (auto intro: invariant_init invariant_step)

lemma exec_reachable: "reachable r st \<Longrightarrow> exec r evs st = Some st' \<Longrightarrow> reachable r st'"
proof (induction evs arbitrary: st)
  case Nil
  then show ?case by simp
next
  case (Cons ev evs)
  from Cons.prems(2) obtain st1 where s: "step r ev st = Some st1"
    and e: "exec r evs st1 = Some st'"
    by (auto split: option.splits)
  from Cons.prems(1) s have "reachable r st1" by (rule reachable_step)
  from Cons.IH [OF this e] show ?case .
qed

lemma exec_from_init: "exec r evs (init_state r) = Some st \<Longrightarrow> reachable r st"
  by (rule exec_reachable [OF reachable_init])

section \<open>The worker's loop body\<close>

lemma validate_loop_failed: "snd (validate_loop code vs) = find (rule_fails code) vs"
  by (induction vs) (auto split: prod.splits)

lemma validate_loop_evaluated:
  "fst (validate_loop code vs) =
     (case find (rule_fails code) vs of
        None \<Rightarrow> vs
      | Some v \<Rightarrow> takeWhile (\<lambda>v. \<not> rule_fails code v) vs @ [v])"
  by (induction vs) (auto split: prod.splits option.splits)

lemma validate_loop_prefix: "\<exists>rest. vs = fst (validate_loop code vs) @ rest"
  by (induction vs) (auto split: prod.splits)

text \<open>
  Claim C5. For a dispatched unit, a failure of \<^verbatim>\<open>http.NewRequest\<close> or of
  \<^verbatim>\<open>http.DefaultClient.Do\<close> makes the worker report \<open>ResultRequestFail\<close> and evaluate no
  validation rule. After a response the rules are evaluated in the order of
  \<^verbatim>\<open>s.Validates\<close>: the evaluated rules are a prefix of the declared ones, ending at the first
  rule that fails, in which case the report is \<open>ResultValidationFail\<close> and the rules after it
  are skipped; when no rule fails (also when none is declared) all are evaluated and the
  report is \<open>ResultOK\<close>. Exactly one report is sent in each case.
\<close>

theorem worker_classification:
  "(res = NewRequestError \<or> res = DoError \<longrightarrow>
      reports (unit_actions s res) = [ResultRequestFail] \<and> evaluated_rules s res = []) \<and>
   (res = Response code \<longrightarrow>
      (\<exists>rest. Validates s = evaluated_rules s res @ rest) \<and>
      (case find (rule_fails code) (Validates s) of
         Some v \<Rightarrow>
           reports (unit_actions s res) = [ResultValidationFail] \<and>
           evaluated_rules s res = takeWhile (\<lambda>v. \<not> rule_fails code v) (Validates s) @ [v]
       | None \<Rightarrow>
           reports (unit_actions s res) = [ResultOK] \<and>
           evaluated_rules s res = Validates s))"
proof (intro conjI impI)
  assume "res = NewRequestError \<or> res = DoError"
  then show "reports (unit_actions s res) = [ResultRequestFail]"
    by (auto simp: unit_actions_def worker_unit_def)
next
  assume "res = NewRequestError \<or> res = DoError"
  then show "evaluated_rules s res = []"
    by (auto simp: evaluated_rules_def worker_unit_def)
next
  assume r: "res = Response code"
  have e: "evaluated_rules s res = fst (validate_loop code (Validates s))"
    by (simp add: r evaluated_rules_def worker_unit_def split: prod.splits option.splits)
  from validate_loop_prefix [of "Validates s" code] e
  show "\<exists>rest. Validates s = evaluated_rules s res @ rest" by simp
next
  assume r: "res = Response code"
  have e: "evaluated_rules s res = fst (validate_loop code (Validates s))"
    by (simp add: r evaluated_rules_def worker_unit_def split: prod.splits option.splits)
  have a: "reports (unit_actions s res) =
      (case snd (validate_loop code (Validates s)) of
         Some v \<Rightarrow> [ResultValidationFail] | None \<Rightarrow> [ResultOK])"
    by (simp add: r unit_actions_def worker_unit_def split: prod.splits option.splits)
  show "case find (rule_fails code) (Validates s) of
      None \<Rightarrow> reports (unit_actions s res) = [ResultOK] \<and> evaluated_rules s res = Validates s
    | Some v \<Rightarrow>
        reports (unit_actions s res) = [ResultValidationFail] \<and>
        evaluated_rules s res = takeWhile (\<lambda>v. \<not> rule_fails code v) (Validates s) @ [v]"
    by (simp add: a e validate_loop_failed validate_loop_evaluated split: option.splits)
qed

theorem worker_classification_witness:
  "reports (unit_actions three_rules DoError) = [ResultRequestFail] \<and>
   evaluated_rules three_rules DoError = [] \<and>
   reports (unit_actions three_rules (Response 200)) = [ResultValidationFail] \<and>
   evaluated_rules three_rules (Response 200) = [status_any, status_200, status_404] \<and>
   reports (unit_actions three_rules (Response 500)) = [ResultValidationFail] \<and>
   evaluated_rules three_rules (Response 500) = [status_any, status_200] \<and>
   reports (unit_actions ping (Response 200)) = [ResultOK] \<and>
   evaluated_rules ping (Response 200) = [status_200]"
  using worker_classification [where res = DoError and s = three_rules and code = 0]
    worker_classification [where res = "Response 200" and s = three_rules and code = 200]
    worker_classification [where res = "Response 500" and s = three_rules and code = 500]
    worker_classification [where res = "Response 200" and s = ping and code = 200]
  by (simp add: three_rules_def ping_def rule_fails_def status_any_def status_200_def
      status_404_def)

text \<open>
  Claim C1. The claim asks for exactly one report and exactly one completion signal on every
  path of the loop body. On the validation failure path the body sends its report and goes
  back to the head of the loop with \<^verbatim>\<open>continue L\<close>: no send on \<^verbatim>\<open>done\<close> happens. Here the
  scenario expects status 200 and the response has status 404.
\<close>

theorem validation_failure_path:
  "unit_actions ping (Response 404) = [SendReport ResultValidationFail, Loop] \<and>
   reports (unit_actions ping (Response 404)) = [ResultValidationFail] \<and>
   completions (unit_actions ping (Response 404)) = 0"
  by (simp add: unit_actions_def worker_unit_def ping_def status_200_def rule_fails_def)

lemma other_paths_signal_once:
  "reports (unit_actions s res) \<noteq> [ResultValidationFail] \<Longrightarrow>
     completions (unit_actions s res) = 1"
  by (auto simp: unit_actions_def worker_unit_def split: http_result.splits prod.splits option.splits)

lemma every_path_reports_once: "length (reports (unit_actions s res)) = 1"
  by (auto simp: unit_actions_def worker_unit_def split: http_result.splits prod.splits option.splits)

section \<open>Runs on concrete scenarios\<close>

lemmas run_eval = step_def init_state_def reportCh_closed_def tally_def unit_actions_def
  worker_unit_def rule_fails_def permits_def

text \<open>
  Claim C9. The claim says that a worker ends only on cancellation and loops back after every
  unit. After a request failure the body executes \<^verbatim>\<open>return\<close>: in this run, never cancelled,
  the only worker has returned once its completion signal is received.
\<close>

theorem request_failure_ends_worker:
  "unit_actions ping_once DoError = [SendReport ResultRequestFail, SendDone, Return] \<and>
   unit_actions ping_once NewRequestError = [SendReport ResultRequestFail, SendDone, Return] \<and>
   exec once_run
     [RGrant, DRecvPermit, DSend, DLoopEnd, WRecvUnit 0, WHttp 0 DoError, WSendReport 0,
      DRecvDone 0]
     (init_state once_run) = Some worker_gone \<and>
   workers worker_gone = [WReturned] \<and> cancelled worker_gone = False"
  by (simp add: run_eval once_run_def ping_once_def ping_def worker_gone_def)

section \<open>The target count\<close>

lemma floor_rat_numeral: "\<lfloor>numeral a / numeral b :: rat\<rfloor> = numeral a div numeral b"
  by (metis floor_divide_of_int_eq of_int_numeral)

lemma ceiling_rat_numeral: "\<lceil>numeral a / numeral b :: rat\<rceil> = - (- numeral a div numeral b)"
  using ceiling_divide_eq_div [of "numeral a" "numeral b", where ?'a = rat] by simp

lemmas f64_eval = round53_def ilog2_def pow2_def round_half_even_def Let_def compute_bitlen
  floor_rat_numeral ceiling_rat_numeral f64_round_def f64_of_int_def is_float64_def

lemma tenth_nearest: "f64_round (1 / 10) = Finite tenth"
  by (simp add: f64_eval tenth_def)

lemma seven_hundredths_nearest: "f64_round (7 / 100) = Finite seven_hundredths"
  by (simp add: f64_eval seven_hundredths_def)

lemma is_float64_round53: "is_float64 x \<Longrightarrow> round53 x = x"
  by (simp add: is_float64_def f64_round_def Let_def split: if_splits)

lemma target_count_exact:
  assumes "Period s = Some p" and "Throughput s = Finite t"
    and "is_float64 (of_int p)" and "is_float64 (of_int p * t)"
    and "- (2 ^ 63) \<le> \<lceil>of_int p * t\<rceil>" and "\<lceil>of_int p * t\<rceil> < 2 ^ 63"
  shows "target_count impl s = Inr \<lceil>of_int p * t\<rceil>"
proof -
  from assms(3) have "f64_of_int p = Finite (of_int p)"
    by (simp add: f64_of_int_def is_float64_round53)
  moreover from assms(4) have "f64_round (of_int p * t) = Finite (of_int p * t)"
    by (simp add: is_float64_def)
  ultimately have "f64_ceil (f64_mul (f64_of_int p) (Throughput s)) =
      Finite (of_int \<lceil>of_int p * t\<rceil>)"
    by (simp add: assms(2))
  with assms(1,5,6) show ?thesis
    by (simp add: target_count_def Let_def)
qed

text \<open>
  Claim C4, amended. With a period the target count is the float64 product of the period and
  the throughput, rounded to the nearest float64, then taken through \<^verbatim>\<open>math.Ceil\<close> and
  converted to \<^verbatim>\<open>int\<close>. It is the ceiling of the exact product whenever the period and the
  product are float64 values and the ceiling fits 64 bits, as for period 10 and throughput 2,
  which give 20. With no period and a count, the target count is the count, whatever the
  throughput.
\<close>

theorem target_count_value:
  "(Period s = Some p \<longrightarrow>
      target_count impl s =
        Inr (go_int impl (f64_ceil (f64_mul (f64_of_int p) (Throughput s))))) \<and>
   (Period s = Some p \<and> Throughput s = Finite t \<and> is_float64 (of_int p) \<and>
    is_float64 (of_int p * t) \<and> - (2 ^ 63) \<le> \<lceil>of_int p * t\<rceil> \<and> \<lceil>of_int p * t\<rceil> < 2 ^ 63 \<longrightarrow>
      target_count impl s = Inr \<lceil>of_int p * t\<rceil>) \<and>
   (Period s = None \<and> Count s = Some c \<longrightarrow> target_count impl s = Inr c)"
  using target_count_exact [of s p t impl]
  by (auto simp: target_count_def)

theorem target_count_value_witness:
  "target_count amd64_int both_set = Inr 20 \<and>
   target_count amd64_int (ping\<lparr>Count := Some 5, Throughput := Finite tenth\<rparr>) = Inr 5"
proof -
  have a: "is_float64 10" by (simp add: f64_eval)
  have b: "is_float64 (10 * 2)" by (simp add: f64_eval)
  have e: "go_int amd64_int (f64_ceil (f64_mul (f64_of_int 10) (Finite 2))) = 20"
    by (simp add: f64_eval)
  show ?thesis
    using target_count_value [of both_set 10 amd64_int 2 5] a b e
      target_count_value [of "ping\<lparr>Count := Some 5, Throughput := Finite tenth\<rparr>" 0 amd64_int 0 5]
    by (simp add: both_set_def ping_def)
qed

text \<open>
  Claim C4 as stated, with the ceiling of the exact product, fails in both readings of the
  throughput. Written as 0.07 and read by the decoder as the nearest float64, a period of 100
  gives 8 where the ceiling of \<open>100 \<times> 0.07\<close> is 7. Taken as the float64 nearest to 0.1, a
  period of 10 gives 1 where the exact product is above 1 and its ceiling is 2.
\<close>

theorem target_count_rounding_counterexample:
  "target_count amd64_int hundred_seconds = Inr 8 \<and>
   Throughput hundred_seconds = f64_round (7 / 100) \<and> \<lceil>100 * (7 / 100 :: rat)\<rceil> = 7 \<and>
   target_count amd64_int ten_seconds = Inr 1 \<and>
   Throughput ten_seconds = Finite tenth \<and> \<lceil>10 * tenth\<rceil> = 2"
proof -
  have a: "target_count amd64_int hundred_seconds = Inr 8"
    by (simp add: target_count_def hundred_seconds_def ping_def seven_hundredths_def f64_eval)
  have b: "target_count amd64_int ten_seconds = Inr 1"
    by (simp add: target_count_def ten_seconds_def ping_def tenth_def f64_eval)
  have c: "\<lceil>10 * tenth\<rceil> = 2" by (simp add: tenth_def ceiling_eq_iff)
  have d: "\<lceil>100 * (7 / 100 :: rat)\<rceil> = 7" by simp
  from a b c d seven_hundredths_nearest show ?thesis
    by (simp add: hundred_seconds_def ten_seconds_def)
qed

text \<open>
  Claim C10. When \<^verbatim>\<open>Period\<close> and \<^verbatim>\<open>Count\<close> are both set, the target count is the one
  computed from the period and the throughput, it does not depend on the count, and
  \<^verbatim>\<open>ScenarioRun\<close> starts its goroutines with it: no error comes from this configuration.
\<close>

theorem period_overrides_count:
  assumes "Period s = Some p" and "Count s = Some c"
  shows "target_count impl s =
           Inr (go_int impl (f64_ceil (f64_mul (f64_of_int p) (Throughput s)))) \<and>
         target_count impl (s\<lparr>Count := c'\<rparr>) = target_count impl s \<and>
         (0 \<le> w \<longrightarrow>
            ScenarioRun_start impl w s =
              Inr \<lparr>scenario = s,
                   count = go_int impl (f64_ceil (f64_mul (f64_of_int p) (Throughput s))),
                   worker_num = nat w\<rparr>)"
  using assms by (simp add: target_count_def ScenarioRun_start_def)

theorem period_overrides_count_witness:
  "Period both_set = Some 10 \<and> Count both_set = Some 5 \<and>
   target_count amd64_int both_set = Inr 20 \<and>
   target_count amd64_int (both_set\<lparr>Count := Some 7\<rparr>) = Inr 20 \<and>
   ScenarioRun_start amd64_int 1 both_set = Inr both_run"
proof -
  have e: "go_int amd64_int (f64_ceil (f64_mul (f64_of_int 10) (Finite 2))) = 20"
    by (simp add: f64_eval)
  have p: "Period both_set = Some 10" "Count both_set = Some 5"
    by (simp_all add: both_set_def)
  from period_overrides_count [OF p, of amd64_int "Some 7" 1] e show ?thesis
    by (auto simp: both_set_def both_run_def ping_def)
qed

section \<open>The dispatcher and the summary\<close>

lemma reach_one_dispatched: "reachable ping_run one_dispatched"
  by (rule exec_from_init [where evs = "[RGrant, DRecvPermit, DSend]"])
     (simp add: run_eval ping_run_def ping_def one_dispatched_def)

lemma reach_interrupted: "reachable ping_run interrupted"
  by (rule exec_reachable [OF reach_one_dispatched, where evs = "[Cancel, DCancel, AReturn]"])
     (simp add: run_eval ping_run_def ping_def one_dispatched_def interrupted_def)

lemma reach_closed_early: "reachable ping_run closed_early"
  by (rule exec_reachable [OF reach_one_dispatched, where evs = "[WRecvUnit 0, Cancel, DCancel]"])
     (simp add: run_eval ping_run_def ping_def one_dispatched_def closed_early_def)

lemma reach_drained: "reachable once_run drained"
  by (rule exec_from_init [where evs = "[RGrant, DRecvPermit, DSend, DLoopEnd, WRecvUnit 0,
        WHttp 0 (Response 200), WSendReport 0, DRecvDone 0, DDrainEnd]"])
     (simp add: run_eval once_run_def ping_once_def ping_def drained_def status_200_def)

lemma reach_completed: "reachable once_run completed"
  by (rule exec_reachable [OF reach_drained, where evs = "[AReturn]"])
     (simp add: run_eval once_run_def drained_def completed_def)

text \<open>
  Claim C7, amended. In every state a run can reach, the number of units dispatched (the
  dispatcher's counter \<^verbatim>\<open>c\<close>) is at most the target count when the target count is not
  negative, and is 0 when it is negative: it never exceeds \<open>max 0 count\<close>.
\<close>

theorem dispatched_bound: "reachable r st \<Longrightarrow> int (dispatched st) \<le> max 0 (count r)"
proof -
  assume "reachable r st"
  then have "dispatcher_ok r st" by (auto dest: reachable_invariant simp: invariant_def)
  then show ?thesis
    by (cases "dispatcher st") (auto simp: dispatcher_ok_def dispatched_def)
qed

theorem dispatched_bound_witness:
  "reachable ping_run one_dispatched \<and>
   int (dispatched one_dispatched) \<le> max 0 (count ping_run) \<and>
   dispatched one_dispatched = 1 \<and> count ping_run = 2"
proof -
  have "dispatched one_dispatched = 1" "count ping_run = 2"
    by (simp_all add: dispatched_def one_dispatched_def ping_run_def)
  with dispatched_bound [OF reach_one_dispatched] reach_one_dispatched show ?thesis
    by simp
qed

text \<open>
  Claim C7 as stated fails for a negative target count: with \<^verbatim>\<open>count: -1\<close> the first loop
  is never entered, 0 units are dispatched, and 0 exceeds \<open>- 1\<close>.
\<close>

theorem dispatched_bound_counterexample:
  "ScenarioRun_start amd64_int 1 negative_count = Inr negative_run \<and>
   reachable negative_run (init_state negative_run) \<and>
   count negative_run = - 1 \<and> dispatched (init_state negative_run) = 0 \<and>
   \<not> int (dispatched (init_state negative_run)) \<le> count negative_run"
proof -
  have "ScenarioRun_start amd64_int 1 negative_count = Inr negative_run"
    by (simp add: ScenarioRun_start_def target_count_def negative_count_def negative_run_def
        ping_def)
  moreover have "count negative_run = - 1" "dispatched (init_state negative_run) = 0"
    by (simp_all add: negative_run_def dispatched_def init_state_def)
  ultimately show ?thesis
    using reachable_init [of negative_run] by simp
qed

lemma closed_frozen:
  assumes "reportCh_closed st" and "step r ev st = Some st'"
  shows "reportCh_closed st' \<and> report_of st' = report_of st \<and> dispatched st' = dispatched st"
  using assms
  by (cases ev; cases "dispatcher st")
     (auto simp: step_def reportCh_closed_def report_of_def dispatched_def
        split: if_splits worker_pc.splits list.splits action.splits)

text \<open>
  Claim C3, amended. When \<^verbatim>\<open>ScenarioRun\<close> has returned, the three counts of its summary add
  up to at most the number of units dispatched. They add up to exactly that number when the
  dispatcher left through its second loop, and so whenever the run was never cancelled. (Once
  \<^verbatim>\<open>reportCh\<close> is closed neither the counts nor the number dispatched change any more, by
  \<open>closed_frozen\<close>.)
\<close>

theorem summary_within_dispatched:
  assumes "reachable r st" and "returned st"
  shows "SuccessCount (report_of st) + ValidationFailCount (report_of st) +
           RequestFailCount (report_of st) \<le> dispatched st \<and>
         (dispatcher st = DFinished (dispatched st) \<or> \<not> cancelled st \<longrightarrow>
            SuccessCount (report_of st) + ValidationFailCount (report_of st) +
              RequestFailCount (report_of st) = dispatched st)"
proof -
  from assms(1) have i: "invariant r st" by (rule reachable_invariant)
  with assms(2) have c: "reportCh_closed st" by (simp add: invariant_def)
  show ?thesis
  proof (cases "dispatcher st")
    case (DReturned c)
    with i show ?thesis
      by (auto simp: invariant_def dispatcher_ok_def enqueued_def dispatched_def report_of_def)
  next
    case (DFinished c)
    with i show ?thesis
      by (auto simp: invariant_def dispatcher_ok_def enqueued_def dispatched_def report_of_def
          observed_def)
  qed (use c in \<open>simp_all add: reportCh_closed_def\<close>)
qed

theorem summary_within_dispatched_witness:
  "reachable once_run completed \<and> returned completed \<and>
   dispatcher completed = DFinished (dispatched completed) \<and>
   SuccessCount (report_of completed) + ValidationFailCount (report_of completed) +
     RequestFailCount (report_of completed) = dispatched completed \<and>
   dispatched completed = 1"
proof -
  have r: "returned completed" by (simp add: completed_def)
  have d: "dispatcher completed = DFinished (dispatched completed)" "dispatched completed = 1"
    by (simp_all add: completed_def drained_def dispatched_def)
  from summary_within_dispatched [OF reach_completed r] reach_completed r d show ?thesis
    by simp
qed

text \<open>
  Claim C3 as stated fails under cancellation: one unit is dispatched, the interrupt comes,
  the dispatcher's \<^verbatim>\<open>select\<close> takes \<^verbatim>\<open>ctx.Done()\<close> and returns, \<^verbatim>\<open>reportCh\<close> is closed and
  \<^verbatim>\<open>ScenarioRun\<close> returns the summary 0, 0, 0 with one unit dispatched.
\<close>

theorem summary_counterexample:
  "reachable ping_run interrupted \<and> returned interrupted \<and> cancelled interrupted \<and>
   dispatched interrupted = 1 \<and>
   SuccessCount (report_of interrupted) + ValidationFailCount (report_of interrupted) +
     RequestFailCount (report_of interrupted) = 0"
proof -
  have "returned interrupted" "cancelled interrupted" "dispatched interrupted = 1"
    "SuccessCount (report_of interrupted) + ValidationFailCount (report_of interrupted) +
       RequestFailCount (report_of interrupted) = 0"
    by (simp_all add: interrupted_def dispatched_def report_of_def)
  with reach_interrupted show ?thesis by simp
qed

text \<open>
  Claim C2, amended. While fewer than \<^verbatim>\<open>c\<close> completion signals have been received the second
  loop of the dispatcher does not end. When the dispatcher has left through it, every
  dispatched unit has been taken from the queue, reported as a success or a request failure
  and its completion signal received, and only then is \<^verbatim>\<open>reportCh\<close> closed. When the
  dispatcher has left the first loop by a \<^verbatim>\<open>return\<close>, the run was cancelled, and \<^verbatim>\<open>reportCh\<close>
  is closed without any wait for completion signals. \<^verbatim>\<open>ScenarioRun\<close> returns only after
  \<^verbatim>\<open>reportCh\<close> is closed, and once it is closed the return is enabled.
\<close>

theorem dispatcher_close:
  assumes "reachable r st"
  shows "(dispatcher st = DDrain j c \<and> j < c \<longrightarrow> step r DDrainEnd st = None) \<and>
         (dispatcher st = DFinished c \<longrightarrow>
            scenarioCh st = 0 \<and> in_flight st = 0 \<and> pending_done st = 0 \<and>
            validationFail st = 0 \<and> success st + requestFail st = c \<and> dispatched st = c) \<and>
         (dispatcher st = DReturned c \<longrightarrow> cancelled st) \<and>
         (returned st \<longrightarrow> reportCh_closed st) \<and>
         (reportCh_closed st \<and> \<not> returned st \<and> \<not> panicked st \<longrightarrow>
            step r AReturn st = Some (st\<lparr>returned := True\<rparr>))"
proof -
  from assms have i: "invariant r st" by (rule reachable_invariant)
  have a: "dispatcher st = DDrain j c \<and> j < c \<longrightarrow> step r DDrainEnd st = None"
    by (simp add: step_def)
  from i have b: "dispatcher st = DFinished c \<longrightarrow>
      scenarioCh st = 0 \<and> in_flight st = 0 \<and> pending_done st = 0 \<and>
      validationFail st = 0 \<and> success st + requestFail st = c \<and> dispatched st = c"
    by (auto simp: invariant_def enqueued_def dispatched_def observed_def)
  from i have d: "dispatcher st = DReturned c \<longrightarrow> cancelled st"
    by (auto simp: invariant_def dispatcher_ok_def)
  from i have e: "returned st \<longrightarrow> reportCh_closed st" by (simp add: invariant_def)
  have f: "reportCh_closed st \<and> \<not> returned st \<and> \<not> panicked st \<longrightarrow>
      step r AReturn st = Some (st\<lparr>returned := True\<rparr>)"
    by (simp add: step_def)
  from a b d e f show ?thesis by blast
qed

theorem dispatcher_close_witness:
  "reachable once_run drained \<and> dispatcher drained = DFinished 1 \<and>
   scenarioCh drained = 0 \<and> in_flight drained = 0 \<and> pending_done drained = 0 \<and>
   success drained + requestFail drained = 1 \<and> reportCh_closed drained \<and>
   step once_run AReturn drained = Some completed \<and> returned completed"
proof -
  have d: "dispatcher drained = DFinished 1" "reportCh_closed drained" "\<not> returned drained"
    "\<not> panicked drained"
    by (simp_all add: drained_def reportCh_closed_def)
  have c: "drained\<lparr>returned := True\<rparr> = completed" "returned completed"
    by (simp_all add: completed_def)
  from dispatcher_close [OF reach_drained, of 0 1] d c reach_drained show ?thesis
    by simp
qed

text \<open>
  Claim C2 as stated fails under cancellation: with one unit dispatched and held by a worker,
  the dispatcher returns on \<^verbatim>\<open>ctx.Done()\<close> and \<^verbatim>\<open>reportCh\<close> is closed with no completion signal
  sent or received; the worker's later send on the closed channel panics.
\<close>

theorem dispatcher_close_counterexample:
  "reachable ping_run closed_early \<and> reportCh_closed closed_early \<and>
   dispatched closed_early = 1 \<and> in_flight closed_early = 1 \<and>
   success closed_early + requestFail closed_early + pending_done closed_early = 0 \<and>
   map_option panicked
     (exec ping_run [WHttp 0 (Response 200), WSendReport 0] closed_early) = Some True"
proof -
  have "reportCh_closed closed_early" "dispatched closed_early = 1"
    "in_flight closed_early = 1"
    "success closed_early + requestFail closed_early + pending_done closed_early = 0"
    "map_option panicked
       (exec ping_run [WHttp 0 (Response 200), WSendReport 0] closed_early) = Some True"
    by (simp_all add: closed_early_def dispatched_def in_flight_def
        pending_done_def run_eval ping_run_def ping_def status_200_def)
  with reach_closed_early show ?thesis by simp
qed

section \<open>A limiter that never emits\<close>

lemma idle_init: "idle_invariant r (init_state r)"
  by (simp add: idle_invariant_def init_state_def list_all_length)

lemma idle_worker_nth:
  "list_all idle_worker ws \<Longrightarrow> k < length ws \<Longrightarrow> ws ! k = WSelect \<or> ws ! k = WReturned"
  by (drule (1) list_all_nth) (cases "ws ! k", simp_all)

lemma idle_step:
  assumes p: "\<not> permits (scenario r)" and s: "step r ev st = Some st'"
    and i: "idle_invariant r st" and g: "invariant r st"
  shows "idle_invariant r st'"
proof (cases ev)
  case Cancel
  with s i show ?thesis by (auto simp: step_Cancel idle_invariant_def)
next
  case RGrant
  with s p show ?thesis by (simp add: step_RGrant)
next
  case RWaitErr
  with s i show ?thesis by (auto simp: step_RWaitErr idle_invariant_def)
next
  case DCancel
  with s i show ?thesis by (auto simp: step_DCancel idle_invariant_def)
next
  case DRecvPermit
  with s i show ?thesis by (auto simp: step_DRecvPermit idle_invariant_def)
next
  case DRecvClosed
  with s i g show ?thesis by (auto simp: step_DRecvClosed idle_invariant_def invariant_def)
next
  case DSend
  with s i show ?thesis by (auto simp: step_DSend idle_invariant_def)
next
  case DLoopEnd
  with s i show ?thesis by (auto simp: step_DLoopEnd idle_invariant_def)
next
  case (DRecvDone k)
  with s i show ?thesis by (auto simp: step_DRecvDone idle_invariant_def)
next
  case DDrainEnd
  with s i show ?thesis by (auto simp: step_DDrainEnd idle_invariant_def)
next
  case (WCancel k)
  with s i show ?thesis
    by (auto simp: step_WCancel idle_invariant_def intro: list_all_update)
next
  case (WRecvUnit k)
  with s i show ?thesis by (auto simp: step_WRecvUnit idle_invariant_def)
next
  case (WHttp k res)
  with s i show ?thesis
    by (auto simp: step_WHttp idle_invariant_def dest: idle_worker_nth)
next
  case (WSendReport k)
  with s i show ?thesis
    by (auto simp: step_WSendReport idle_invariant_def dest: idle_worker_nth)
next
  case AReturn
  with s i show ?thesis
    by (auto simp: step_AReturn idle_invariant_def reportCh_closed_def)
qed

lemma reachable_idle:
  "reachable r st \<Longrightarrow> \<not> permits (scenario r) \<Longrightarrow> idle_invariant r st"
proof (induction rule: reachable.induct)
  case reachable_init
  show ?case by (rule idle_init)
next
  case (reachable_step st ev st')
  from reachable_step.hyps(1) have "invariant r st" by (rule reachable_invariant)
  with reachable_step show ?case by (auto intro: idle_step)
qed

lemma zero_rate_period:
  "Period s = Some p \<Longrightarrow> Throughput s = Finite 0 \<Longrightarrow> target_count impl s = Inr 0"
  by (simp add: target_count_def f64_of_int_def f64_round_def round53_def)

lemma wind_down_returns:
  assumes "idle_invariant r st" and "count r \<le> 0"
  shows "\<exists>st'. exec r (wind_down st) st = Some st' \<and> returned st' \<and>
           report_of st' = \<lparr>SuccessCount = 0, ValidationFailCount = 0, RequestFailCount = 0\<rparr>"
proof -
  from assms have "dispatcher st = DSelect 1 0 \<and> \<not> returned st \<or>
      dispatcher st = DDrain 0 0 \<and> \<not> returned st \<or> dispatcher st = DFinished 0"
    by (auto simp: idle_invariant_def)
  then show ?thesis
  proof (elim disjE conjE)
    assume "dispatcher st = DSelect 1 0" "\<not> returned st"
    with assms show ?thesis
      by (simp add: wind_down_def step_def reportCh_closed_def report_of_def idle_invariant_def)
  next
    assume "dispatcher st = DDrain 0 0" "\<not> returned st"
    with assms show ?thesis
      by (simp add: wind_down_def step_def reportCh_closed_def report_of_def idle_invariant_def)
  next
    assume "dispatcher st = DFinished 0"
    with assms show ?thesis
      by (simp add: wind_down_def step_def reportCh_closed_def report_of_def idle_invariant_def)
  qed
qed

text \<open>
  Claim C8, amended. A scenario whose throughput is 0 dispatches no unit, and its three counts
  stay 0 in every state. With a period the target count is 0. Whenever the target count is
  not positive, the dispatcher and the collecting loop need no permit and no other goroutine:
  their remaining steps (\<open>wind_down\<close>) are enabled and end with \<^verbatim>\<open>ScenarioRun\<close> returning the
  all-zero summary. With a positive explicit count, \<^verbatim>\<open>ScenarioRun\<close> has returned only if the
  run was cancelled.
\<close>

theorem zero_throughput:
  assumes "Throughput s = Finite 0" and "ScenarioRun_start impl w s = Inr r"
    and "reachable r st"
  shows "dispatched st = 0 \<and>
         report_of st = \<lparr>SuccessCount = 0, ValidationFailCount = 0, RequestFailCount = 0\<rparr> \<and>
         (Period s \<noteq> None \<longrightarrow> count r = 0) \<and>
         (count r \<le> 0 \<longrightarrow>
            (\<exists>st'. exec r (wind_down st) st = Some st' \<and> returned st' \<and>
               report_of st' =
                 \<lparr>SuccessCount = 0, ValidationFailCount = 0, RequestFailCount = 0\<rparr>)) \<and>
         (0 < count r \<and> returned st \<longrightarrow> cancelled st)"
proof -
  from assms(2) have sc: "scenario r = s" and tc: "target_count impl s = Inr (count r)"
    by (auto simp: ScenarioRun_start_def split: sum.splits if_splits)
  from assms(1) sc have "\<not> permits (scenario r)" by (simp add: permits_def)
  from reachable_idle [OF assms(3) this] have i: "idle_invariant r st" .
  from i have a: "dispatched st = 0" by (auto simp: idle_invariant_def dispatched_def)
  from i have b: "report_of st =
      \<lparr>SuccessCount = 0, ValidationFailCount = 0, RequestFailCount = 0\<rparr>"
    by (simp add: idle_invariant_def report_of_def)
  from tc assms(1) have c: "Period s \<noteq> None \<longrightarrow> count r = 0"
    by (auto simp: zero_rate_period)
  from i have d: "count r \<le> 0 \<longrightarrow>
      (\<exists>st'. exec r (wind_down st) st = Some st' \<and> returned st' \<and>
         report_of st' = \<lparr>SuccessCount = 0, ValidationFailCount = 0, RequestFailCount = 0\<rparr>)"
    by (auto dest: wind_down_returns)
  from assms(3) have "returned st \<longrightarrow> reportCh_closed st"
    by (auto dest: reachable_invariant simp: invariant_def)
  with i have e: "0 < count r \<and> returned st \<longrightarrow> cancelled st"
    by (auto simp: idle_invariant_def reportCh_closed_def)
  from a b c d e show ?thesis by blast
qed

theorem zero_throughput_witness:
  "Throughput idle_period = Finite 0 \<and>
   ScenarioRun_start amd64_int 1 idle_period = Inr idle_period_run \<and>
   reachable idle_period_run (init_state idle_period_run) \<and>
   dispatched (init_state idle_period_run) = 0 \<and> count idle_period_run = 0 \<and>
   (\<exists>st'. exec idle_period_run [DLoopEnd, DDrainEnd, AReturn] (init_state idle_period_run) =
            Some st' \<and> returned st' \<and>
          report_of st' = \<lparr>SuccessCount = 0, ValidationFailCount = 0, RequestFailCount = 0\<rparr>)"
proof -
  have t: "Throughput idle_period = Finite 0" by (simp add: idle_period_def)
  have s: "ScenarioRun_start amd64_int 1 idle_period = Inr idle_period_run"
    by (simp add: ScenarioRun_start_def target_count_def idle_period_def idle_period_run_def
        f64_of_int_def f64_round_def round53_def)
  have w: "wind_down (init_state idle_period_run) = [DLoopEnd, DDrainEnd, AReturn]"
    by (simp add: wind_down_def init_state_def)
  have c: "count idle_period_run = 0" by (simp add: idle_period_run_def)
  from zero_throughput [OF t s reachable_init] t s w c reachable_init [of idle_period_run]
  show ?thesis by simp
qed

lemma exec_without_cancel:
  "exec r evs st = Some st' \<Longrightarrow> Cancel \<notin> set evs \<Longrightarrow> cancelled st' = cancelled st"
proof (induction evs arbitrary: st)
  case Nil
  then show ?case by simp
next
  case (Cons ev evs)
  from Cons.prems(1) obtain st1 where s: "step r ev st = Some st1"
    and e: "exec r evs st1 = Some st'"
    by (auto split: option.splits)
  from Cons.prems(2) have n: "ev \<noteq> Cancel" "Cancel \<notin> set evs" by auto
  from s n(1) have "cancelled st1 = cancelled st"
    by (cases ev)
       (auto simp: step_RGrant step_RWaitErr step_DCancel step_DRecvPermit step_DRecvClosed
          step_DSend step_DLoopEnd step_DRecvDone step_DDrainEnd step_WCancel step_WRecvUnit
          step_WHttp step_WSendReport step_AReturn tally_def
          split: if_splits ResultState.splits)
  with Cons.IH [OF e n(2)] show ?case by simp
qed

text \<open>
  Claim C8 as stated fails for an explicit count: with \<^verbatim>\<open>count: 5\<close> and throughput 0 no
  sequence of events without the interrupt leads to a state in which \<^verbatim>\<open>ScenarioRun\<close> has
  returned.
\<close>

theorem zero_throughput_counterexample:
  "Throughput idle_count = Finite 0 \<and>
   ScenarioRun_start amd64_int 1 idle_count = Inr idle_count_run \<and>
   \<not> (\<exists>evs st. Cancel \<notin> set evs \<and>
         exec idle_count_run evs (init_state idle_count_run) = Some st \<and> returned st)"
proof -
  have t: "Throughput idle_count = Finite 0" by (simp add: idle_count_def)
  have s: "ScenarioRun_start amd64_int 1 idle_count = Inr idle_count_run"
    by (simp add: ScenarioRun_start_def target_count_def idle_count_def idle_count_run_def
        ping_def)
  have p: "\<not> permits (scenario idle_count_run)"
    by (simp add: permits_def idle_count_run_def idle_count_def)
  have c: "0 < count idle_count_run" by (simp add: idle_count_run_def)
  have "\<not> returned st"
    if e: "exec idle_count_run evs (init_state idle_count_run) = Some st"
      and n: "Cancel \<notin> set evs" for evs st
  proof
    assume r: "returned st"
    from e have re: "reachable idle_count_run st" by (rule exec_from_init)
    from reachable_idle [OF re p] have i: "idle_invariant idle_count_run st" .
    from re r have "reportCh_closed st"
      by (auto dest: reachable_invariant simp: invariant_def)
    with i c have "cancelled st" by (auto simp: idle_invariant_def reportCh_closed_def)
    moreover from exec_without_cancel [OF e n] have "\<not> cancelled st"
      by (simp add: init_state_def)
    ultimately show False by simp
  qed
  with t s show ?thesis by blast
qed

section \<open>Loading and starting\<close>

lemma LoadScenarioFile_decodes: "LoadScenarioFile unmarshal (Inr bytes) = unmarshal bytes"
  by (simp add: LoadScenarioFile_def split: sum.splits)

text \<open>
  Claim C6, amended. \<^verbatim>\<open>LoadScenarioFile\<close> returns what the decoder returns and \<^verbatim>\<open>main\<close> starts
  \<^verbatim>\<open>ScenarioRun\<close> on every scenario of the file: nothing checks \<^verbatim>\<open>Period\<close> and \<^verbatim>\<open>Count\<close>. A
  scenario with both set is run, with the target count of the period. A scenario with
  neither set reaches \<^verbatim>\<open>ScenarioRun\<close> too, which panics on the nil \<^verbatim>\<open>Count\<close> while computing
  the target count, before any worker or dispatcher exists.
\<close>

theorem no_period_count_check:
  "LoadScenarioFile unmarshal (Inr bytes) = unmarshal bytes \<and>
   (LoadScenarioFile unmarshal input = Inr d \<longrightarrow>
      main_runs impl w unmarshal input = Inr (map (ScenarioRun_start impl w) (Scenarios d))) \<and>
   (Period s = Some p \<and> Count s = Some c \<and> 0 \<le> w \<longrightarrow>
      ScenarioRun_start impl w s =
        Inr \<lparr>scenario = s,
             count = go_int impl (f64_ceil (f64_mul (f64_of_int p) (Throughput s))),
             worker_num = nat w\<rparr>) \<and>
   (Period s = None \<and> Count s = None \<longrightarrow>
      ScenarioRun_start impl w s = Inl NilPointerDereference)"
  by (auto simp: LoadScenarioFile_decodes main_runs_def ScenarioRun_start_def target_count_def)

theorem no_period_count_check_witness:
  "LoadScenarioFile decoded_both (Inr ''scenarios'') =
     Inr \<lparr>Scenarios = [both_set, neither_set]\<rparr> \<and>
   main_runs amd64_int 1 decoded_both (Inr ''scenarios'') =
     Inr [ScenarioRun_start amd64_int 1 both_set, ScenarioRun_start amd64_int 1 neither_set] \<and>
   ScenarioRun_start amd64_int 1 both_set = Inr both_run \<and>
   ScenarioRun_start amd64_int 1 neither_set = Inl NilPointerDereference"
proof -
  have e: "go_int amd64_int (f64_ceil (f64_mul (f64_of_int 10) (Finite 2))) = 20"
    by (simp add: f64_eval)
  have l: "LoadScenarioFile decoded_both (Inr ''scenarios'') =
      Inr \<lparr>Scenarios = [both_set, neither_set]\<rparr>"
    by (simp add: LoadScenarioFile_def decoded_both_def)
  have b: "Period both_set = Some 10 \<and> Count both_set = Some 5 \<and> (0::int) \<le> 1"
    "Throughput both_set = Finite 2"
    by (simp_all add: both_set_def)
  have n: "Period neither_set = None \<and> Count neither_set = None"
    by (simp add: neither_set_def ping_def)
  have r: "\<lparr>scenario = both_set, count = 20, worker_num = nat 1\<rparr> = both_run"
    by (simp add: both_run_def)
  from no_period_count_check [where unmarshal = decoded_both and input = "Inr ''scenarios''"
      and d = "\<lparr>Scenarios = [both_set, neither_set]\<rparr>" and impl = amd64_int and w = 1
      and s = both_set and p = 10 and c = 5]
    no_period_count_check [where impl = amd64_int and w = 1 and s = neither_set]
    l b n e r
  show ?thesis by simp
qed

text \<open>
  Claim C6 as stated fails: a file with a scenario that sets both \<^verbatim>\<open>Period\<close> and \<^verbatim>\<open>Count\<close>
  is loaded without error, \<^verbatim>\<open>main\<close> starts \<^verbatim>\<open>ScenarioRun\<close> on it, and the run dispatches.
\<close>

theorem no_period_count_check_counterexample:
  "Period both_set = Some 10 \<and> Count both_set = Some 5 \<and>
   main_runs amd64_int 1 decoded_both (Inr ''scenarios'') =
     Inr [Inr both_run, Inl NilPointerDereference] \<and>
   exec both_run [RGrant, DRecvPermit, DSend] (init_state both_run) = Some one_dispatched \<and>
   dispatched one_dispatched = 1"
proof -
  have e: "go_int amd64_int (f64_ceil (f64_mul (f64_of_int 10) (Finite 2))) = 20"
    by (simp add: f64_eval)
  have "main_runs amd64_int 1 decoded_both (Inr ''scenarios'') =
      Inr [Inr both_run, Inl NilPointerDereference]"
    by (simp add: main_runs_def LoadScenarioFile_def decoded_both_def ScenarioRun_start_def
        target_count_def both_set_def neither_set_def ping_def both_run_def e)
  moreover have "exec both_run [RGrant, DRecvPermit, DSend] (init_state both_run) =
      Some one_dispatched"
    by (simp add: run_eval both_run_def both_set_def ping_def one_dispatched_def)
  ultimately show ?thesis
    by (simp add: both_set_def dispatched_def one_dispatched_def)
qed

section \<open>Runs that never return\<close>

text \<open>
  The missing completion signal of the validation failure path and the \<^verbatim>\<open>return\<close> of the
  request failure paths both leave the dispatcher in \<^verbatim>\<open><-done\<close> for ever, cancelled or not:
  from the two states below no sequence of events leads to a state in which \<^verbatim>\<open>ScenarioRun\<close>
  has returned. In the first the only dispatched unit failed its validation. In the second
  the only worker returned after a request failure while a second unit is still queued.
\<close>

lemma waiting_forever_step:
  assumes "step r ev st = Some st'" and "waiting_forever st"
  shows "waiting_forever st'"
  using assms
  by (cases ev)
     (auto simp: step_Cancel step_RGrant step_RWaitErr step_DCancel step_DRecvPermit
        step_DRecvClosed step_DSend step_DLoopEnd step_DRecvDone step_DDrainEnd step_WCancel
        step_WRecvUnit step_WHttp step_WSendReport step_AReturn waiting_forever_def
        reportCh_closed_def intro: list_all_update dest: idle_worker_nth)

lemma waiting_forever_exec:
  "exec r evs st = Some st' \<Longrightarrow> waiting_forever st \<Longrightarrow> waiting_forever st'"
proof (induction evs arbitrary: st)
  case Nil
  then show ?case by simp
next
  case (Cons ev evs)
  from Cons.prems(1) obtain st1 where s: "step r ev st = Some st1"
    and e: "exec r evs st1 = Some st'"
    by (auto split: option.splits)
  from waiting_forever_step [OF s Cons.prems(2)] Cons.IH [OF e] show ?case by simp
qed

lemma validation_failure_blocks_run:
  "exec once_run
     [RGrant, DRecvPermit, DSend, DLoopEnd, WRecvUnit 0, WHttp 0 (Response 404), WSendReport 0]
     (init_state once_run) = Some never_signalled \<and>
   \<not> (\<exists>evs st. exec once_run evs never_signalled = Some st \<and> returned st)"
proof -
  have a: "exec once_run
     [RGrant, DRecvPermit, DSend, DLoopEnd, WRecvUnit 0, WHttp 0 (Response 404), WSendReport 0]
     (init_state once_run) = Some never_signalled"
    by (simp add: run_eval once_run_def ping_once_def ping_def never_signalled_def status_200_def)
  have w: "waiting_forever never_signalled"
    by (simp add: waiting_forever_def never_signalled_def)
  have "\<not> returned st" if "exec once_run evs never_signalled = Some st" for evs st
    using waiting_forever_exec [OF that w] by (simp add: waiting_forever_def)
  with a show ?thesis by blast
qed

lemma starved_step:
  assumes "step r ev st = Some st'" and "starved st"
  shows "starved st'"
  using assms
  by (cases ev)
     (auto simp: step_Cancel step_RGrant step_RWaitErr step_DCancel step_DRecvPermit
        step_DRecvClosed step_DSend step_DLoopEnd step_DRecvDone step_DDrainEnd step_WCancel
        step_WRecvUnit step_WHttp step_WSendReport step_AReturn starved_def
        reportCh_closed_def)

lemma starved_exec: "exec r evs st = Some st' \<Longrightarrow> starved st \<Longrightarrow> starved st'"
proof (induction evs arbitrary: st)
  case Nil
  then show ?case by simp
next
  case (Cons ev evs)
  from Cons.prems(1) obtain st1 where s: "step r ev st = Some st1"
    and e: "exec r evs st1 = Some st'"
    by (auto split: option.splits)
  from starved_step [OF s Cons.prems(2)] Cons.IH [OF e] show ?case by simp
qed

lemma request_failure_blocks_run:
  "exec ping_run
     [RGrant, DRecvPermit, DSend, WRecvUnit 0, WHttp 0 DoError, WSendReport 0,
      RGrant, DRecvPermit, DSend, DLoopEnd, DRecvDone 0]
     (init_state ping_run) = Some pool_empty \<and>
   \<not> (\<exists>evs st. exec ping_run evs pool_empty = Some st \<and> returned st)"
proof -
  have a: "exec ping_run
     [RGrant, DRecvPermit, DSend, WRecvUnit 0, WHttp 0 DoError, WSendReport 0,
      RGrant, DRecvPermit, DSend, DLoopEnd, DRecvDone 0]
     (init_state ping_run) = Some pool_empty"
    by (simp add: run_eval ping_run_def ping_def pool_empty_def)
  have w: "starved pool_empty" by (simp add: starved_def pool_empty_def)
  have "\<not> returned st" if "exec ping_run evs pool_empty = Some st" for evs st
    using starved_exec [OF that w] by (simp add: starved_def)
  with a show ?thesis by blast
qed

end
